theory Spec2Isabelle
  imports Complex_Main "HOL-Library.Sublist"
begin

section \<open>Data model of the review analyzer (process.py)\<close>

text \<open>
  The Python dataclass \<open>Review\<close>. Python integers are unbounded (\<open>int\<close>); strings are
  character lists. The field \<open>id\<close> is renamed because \<open>id\<close> is the identity of HOL, and
  the parameter \<open>reviews\<close> of the functions is \<open>revs\<close> here, since \<open>reviews\<close> is a field
  of the summary below.
\<close>

record review =
  id_review :: int
  rating :: int
  year_month :: string
  location :: string
  park :: string

text \<open>The exceptions the aggregation functions can raise.\<close>

datatype py_error = ValueError | ZeroDivisionError

subsection \<open>Python primitives used by the source\<close>

text \<open>
  A character is a code point below 256. \<open>str.lower\<close> moves the upper-case letters among
  them to lower case: \<open>A\<close> .. \<open>Z\<close> (65 .. 90) and the accented capitals 192 .. 222, the
  multiplication sign 215 apart, each to the code point 32 above; every other character
  is kept.
\<close>

definition lower_char :: "char \<Rightarrow> char" where
  "lower_char c =
     (let n = (of_char c :: nat)
      in if (65 \<le> n \<and> n \<le> 90) \<or> (192 \<le> n \<and> n \<le> 222 \<and> n \<noteq> 215)
         then char_of (n + 32) else c)"

definition lower :: "string \<Rightarrow> string" where
  "lower s = map lower_char s"

text \<open>\<open>s.startswith(p)\<close>.\<close>

definition startswith :: "string \<Rightarrow> string \<Rightarrow> bool" where
  "startswith s p = (take (length p) s = p)"

text \<open>
  The true division \<open>a / n\<close> of Python, which raises \<open>ZeroDivisionError\<close> on a zero divisor.
  A Python float is kept as the exact rational it stands for: the quotient is neither
  rounded to 53 bits nor bounded in size, so the theorems below speak of exact averages.
\<close>

definition truediv :: "rat \<Rightarrow> nat \<Rightarrow> py_error + rat" where
  "truediv a n = (if n = 0 then Inl ZeroDivisionError else Inr (a / of_nat n))"

text \<open>
  A Python \<open>dict\<close> is an association list in insertion order, with distinct keys.
  \<open>dict_modify k d f\<close> is the access \<open>m[k]\<close> on a \<open>defaultdict\<close> (or a \<open>Counter\<close>)
  whose default value is \<open>d\<close>, followed by the in-place update \<open>f\<close> of the value found: an
  absent key is inserted at the end, a present key keeps its position.
\<close>

fun dict_modify :: "'k \<Rightarrow> 'v \<Rightarrow> ('v \<Rightarrow> 'v) \<Rightarrow> ('k \<times> 'v) list \<Rightarrow> ('k \<times> 'v) list" where
  "dict_modify k d f [] = [(k, f d)]"
| "dict_modify k d f ((k', v) # kvs) =
     (if k' = k then (k', f v) # kvs else (k', v) # dict_modify k d f kvs)"

text \<open>
  The comprehension \<open>{k: sum(v) / len(v) for k, v in stats.items()}\<close>: the entries are
  visited in order and the first division that raises ends the evaluation.
\<close>

fun avg_items :: "('k \<times> int list) list \<Rightarrow> py_error + ('k \<times> rat) list" where
  "avg_items [] = Inr []"
| "avg_items ((k, v) # kvs) =
     (case truediv (of_int (sum_list v)) (length v) of
        Inl e \<Rightarrow> Inl e
      | Inr a \<Rightarrow> (case avg_items kvs of Inl e \<Rightarrow> Inl e | Inr rest \<Rightarrow> Inr ((k, a) # rest)))"

subsection \<open>Simple filters\<close>

definition get_reviews_by_park :: "review list \<Rightarrow> string \<Rightarrow> review list" where
  "get_reviews_by_park revs p = filter (\<lambda>r. lower (park r) = lower p) revs"

definition avg_rating_by_park_year ::
  "review list \<Rightarrow> string \<Rightarrow> string \<Rightarrow> py_error + rat option" where
  "avg_rating_by_park_year revs p year =
     (let ratings = map rating
            (filter (\<lambda>r. lower (park r) = lower p \<and> startswith (year_month r) year) revs)
      in if ratings \<noteq> []
         then (case truediv (of_int (sum_list ratings)) (length ratings) of
                 Inl e \<Rightarrow> Inl e
               | Inr a \<Rightarrow> Inr (Some a))
         else Inr None)"

subsection \<open>Statistics for graphs\<close>

definition reviews_count_per_park :: "review list \<Rightarrow> (string \<times> nat) list" where
  "reviews_count_per_park revs = foldl (\<lambda>c r. dict_modify (park r) 0 Suc c) [] revs"


text \<open>
  The slice \<open>xs[:n]\<close>: a negative \<open>n\<close> counts from the end, so that \<open>xs[:-1]\<close> drops the
  last element.
\<close>

definition slice_to :: "'a list \<Rightarrow> int \<Rightarrow> 'a list" where
  "slice_to xs n = (if 0 \<le> n then take (nat n) xs else take (length xs - nat (- n)) xs)"

text \<open>
  The built-in \<open>sorted(xs, key=key, reverse=True)\<close>: a stable sort into descending
  order of the key, where elements of equal key keep the order they had.
\<close>

definition sorted_reverse :: "('a \<Rightarrow> rat) \<Rightarrow> 'a list \<Rightarrow> 'a list" where
  "sorted_reverse key xs = sort_key (\<lambda>x. - key x) xs"

text \<open>The assignment \<open>m[k] = v\<close> and the constructor \<open>dict(pairs)\<close>.\<close>

definition dict_set :: "'k \<Rightarrow> 'v \<Rightarrow> ('k \<times> 'v) list \<Rightarrow> ('k \<times> 'v) list" where
  "dict_set k v m = dict_modify k v (\<lambda>_. v) m"

definition dict_of_pairs :: "('k \<times> 'v) list \<Rightarrow> ('k \<times> 'v) list" where
  "dict_of_pairs kvs = foldl (\<lambda>m (k, v). dict_set k v m) [] kvs"

definition top_locations_for_park ::
  "review list \<Rightarrow> string \<Rightarrow> int \<Rightarrow> py_error + (string \<times> rat) list" where
  "top_locations_for_park revs p topn =
     (let stats = foldl (\<lambda>stats r.
                    if lower (park r) = lower p
                    then dict_modify (location r) [] (\<lambda>v. v @ [rating r]) stats
                    else stats) [] revs
      in case avg_items stats of
           Inl e \<Rightarrow> Inl e
         | Inr avgs \<Rightarrow> Inr (dict_of_pairs (slice_to (sorted_reverse snd avgs) topn)))"

text \<open>
  The parameter \<open>top\<close> of the source is \<open>topn\<close> here (\<open>top\<close> is a constant of HOL). The
  call without the third argument takes its default, 10.
\<close>

definition top_locations_for_park_default ::
  "review list \<Rightarrow> string \<Rightarrow> py_error + (string \<times> rat) list" where
  "top_locations_for_park_default revs p = top_locations_for_park revs p 10"

subsection \<open>Monthly averages\<close>

definition month_map :: "(string \<times> string) list" where
  "month_map =
     [(''01'', ''Jan''), (''02'', ''Feb''), (''03'', ''Mar''),
      (''04'', ''Apr''), (''05'', ''May''), (''06'', ''Jun''),
      (''07'', ''Jul''), (''08'', ''Aug''), (''09'', ''Sep''),
      (''10'', ''Oct''), (''11'', ''Nov''), (''12'', ''Dec'')]"

text \<open>
  \<open>s.split(c)\<close> for a separator of one character: a string with \<open>n\<close> separators gives
  \<open>n + 1\<close> parts, some of them possibly empty.
\<close>

fun split_on :: "char \<Rightarrow> string \<Rightarrow> string list" where
  "split_on c [] = [[]]"
| "split_on c (x # xs) =
     (if x = c then [] # split_on c xs
      else (case split_on c xs of [] \<Rightarrow> [[x]] | part # parts \<Rightarrow> (x # part) # parts))"

text \<open>
  The first loop of \<open>avg_monthly_rating\<close>. The unpacking \<open>_, month = r.year_month.split("-")\<close>
  raises \<open>ValueError\<close> unless the split gives exactly two parts; the test \<open>if month_name\<close>
  passes for a month name that is neither \<open>None\<close> nor empty.
\<close>

fun monthly_stats ::
  "string \<Rightarrow> (string \<times> int list) list \<Rightarrow> review list \<Rightarrow> py_error + (string \<times> int list) list" where
  "monthly_stats p stats [] = Inr stats"
| "monthly_stats p stats (r # rs) =
     (if lower (park r) = lower p
      then (case split_on CHR ''-'' (year_month r) of
              [_, month] \<Rightarrow>
                (case map_of month_map month of
                   None \<Rightarrow> monthly_stats p stats rs
                 | Some month_name \<Rightarrow>
                     if month_name \<noteq> []
                     then monthly_stats p
                            (dict_modify month_name [] (\<lambda>v. v @ [rating r]) stats) rs
                     else monthly_stats p stats rs)
            | _ \<Rightarrow> Inl ValueError)
      else monthly_stats p stats rs)"

text \<open>
  The second loop, over \<open>month_map.values()\<close>: the test
  \<open>month_name in stats and stats[month_name]\<close> reads the dictionary without inserting.
\<close>

fun monthly_ordered ::
  "(string \<times> int list) list \<Rightarrow> (string \<times> rat) list \<Rightarrow> string list \<Rightarrow>
   py_error + (string \<times> rat) list" where
  "monthly_ordered stats ordered [] = Inr ordered"
| "monthly_ordered stats ordered (month_name # names) =
     (case (case map_of stats month_name of
              None \<Rightarrow> Inr 0
            | Some v \<Rightarrow> if v \<noteq> [] then truediv (of_int (sum_list v)) (length v) else Inr 0) of
        Inl e \<Rightarrow> Inl e
      | Inr a \<Rightarrow> monthly_ordered stats (dict_set month_name a ordered) names)"

definition avg_monthly_rating ::
  "review list \<Rightarrow> string \<Rightarrow> py_error + (string \<times> rat) list" where
  "avg_monthly_rating revs p =
     (case monthly_stats p [] revs of
        Inl e \<Rightarrow> Inl e
      | Inr stats \<Rightarrow> monthly_ordered stats [] (map snd month_map))"

subsection \<open>Export summary\<close>

text \<open>
  \<open>round(x, 2)\<close>: to the nearest multiple of 1/100, a tie going to the even neighbour.
\<close>

definition round_half_even :: "rat \<Rightarrow> int" where
  "round_half_even y =
     (let f = \<lfloor>y\<rfloor>; d = y - of_int f
      in if d < 1 / 2 then f else if 1 / 2 < d then f + 1 else if even f then f else f + 1)"

definition round2 :: "rat \<Rightarrow> rat" where
  "round2 x = of_int (round_half_even (x * 100)) / 100"

text \<open>
  An entry of \<open>summ\<close> while the first loop runs (\<open>avg\<close> holds the sum of the ratings and
  \<open>countries\<close> the set of locations), and an entry of the result.
\<close>

record summary_acc =
  acc_reviews :: nat
  acc_positive :: nat
  acc_avg :: rat
  acc_countries :: "string set"

record summary =
  reviews :: nat
  positive :: nat
  avg :: rat
  countries :: nat

definition summ_default :: summary_acc where
  "summ_default = \<lparr>acc_reviews = 0, acc_positive = 0, acc_avg = 0, acc_countries = {}\<rparr>"

definition summ_step :: "review \<Rightarrow> summary_acc \<Rightarrow> summary_acc" where
  "summ_step r s =
     \<lparr>acc_reviews = acc_reviews s + 1,
      acc_positive = acc_positive s + (if 4 \<le> rating r then 1 else 0),
      acc_avg = acc_avg s + of_int (rating r),
      acc_countries = insert (location r) (acc_countries s)\<rparr>"

fun summ_finish :: "(string \<times> summary_acc) list \<Rightarrow> py_error + (string \<times> summary) list" where
  "summ_finish [] = Inr []"
| "summ_finish ((p, s) # kvs) =
     (case truediv (acc_avg s) (acc_reviews s) of
        Inl e \<Rightarrow> Inl e
      | Inr a \<Rightarrow>
          (case summ_finish kvs of
             Inl e \<Rightarrow> Inl e
           | Inr rest \<Rightarrow>
               Inr ((p, \<lparr>reviews = acc_reviews s, positive = acc_positive s,
                         avg = round2 a, countries = card (acc_countries s)\<rparr>) # rest)))"

definition park_summary :: "review list \<Rightarrow> py_error + (string \<times> summary) list" where
  "park_summary revs =
     summ_finish (foldl (\<lambda>summ r. dict_modify (park r) summ_default (summ_step r) summ) [] revs)"

section \<open>The year-average query of the interactive layer (main.py)\<close>

text \<open>
  What option 3 of \<open>handle_view\<close> shows. The text of a message is abstracted to a
  constructor; \<open>Average\<close> carries the three values the format string prints.
\<close>

datatype message =
    EmptyInput
  | BadYear
  | NoData
  | Average string string rat
  | ProcessingError py_error

text \<open>The truth value of \<open>avg\<close> in \<open>... if avg else "No data."\<close>.\<close>

definition truthy :: "rat option \<Rightarrow> bool" where
  "truthy a = (case a of None \<Rightarrow> False | Some x \<Rightarrow> x \<noteq> 0)"

definition year_average_message :: "string \<Rightarrow> string \<Rightarrow> rat option \<Rightarrow> message" where
  "year_average_message p year a = (if truthy a then Average p year (the a) else NoData)"

text \<open>
  \<open>str.isdigit\<close>: the string is not empty and each character is a digit, which among the
  code points below 256 are \<open>0\<close> .. \<open>9\<close> (48 .. 57) and the superscripts two, three and
  one (178, 179, 185).
\<close>

definition isdigit_char :: "char \<Rightarrow> bool" where
  "isdigit_char c =
     (let n = (of_char c :: nat) in (48 \<le> n \<and> n \<le> 57) \<or> n = 178 \<or> n = 179 \<or> n = 185)"

definition isdigit :: "string \<Rightarrow> bool" where
  "isdigit s = (s \<noteq> [] \<and> list_all isdigit_char s)"

definition view_year_average :: "review list \<Rightarrow> string \<Rightarrow> string \<Rightarrow> message" where
  "view_year_average revs p year =
     (if p = [] \<or> year = [] then EmptyInput
      else if \<not> isdigit year \<or> length year \<noteq> 4 then BadYear
      else (case avg_rating_by_park_year revs p year of
              Inl e \<Rightarrow> ProcessingError e
            | Inr a \<Rightarrow> year_average_message p year a))"

section \<open>The tabular exporter (exporter.py)\<close>

text \<open>
  \<open>CsvExporter.export\<close> hands rows of Python values to \<open>csv.writer\<close> of the standard
  library. A value of a row is a string, an integer or a float; the writer turns each into
  text with \<open>str\<close>, quotes the text where the format needs it, joins the fields of a
  row with commas and ends the row with CR LF (the default dialect, \<open>excel\<close>, with minimal
  quoting). The file, opened with \<open>newline=""\<close>, receives the rows unchanged; the model
  returns its content.
\<close>

datatype cell = CStr string | CInt nat | CFloat rat

text \<open>\<open>str(n)\<close> of a non-negative integer: its decimal digits.\<close>

definition digit_char :: "nat \<Rightarrow> char" where
  "digit_char d = char_of (48 + d)"

function str_nat :: "nat \<Rightarrow> string" where
  "str_nat n = (if n < 10 then [digit_char n] else str_nat (n div 10) @ [digit_char (n mod 10)])"
  by pat_completeness auto
termination
  by (relation "measure (\<lambda>n. n)") auto

text \<open>
  \<open>str\<close> of a value. The text of a float is left open: \<open>fmt\<close> stands for the float
  formatting of Python.
\<close>

definition cell_str :: "(rat \<Rightarrow> string) \<Rightarrow> cell \<Rightarrow> string" where
  "cell_str fmt c = (case c of CStr s \<Rightarrow> s | CInt n \<Rightarrow> str_nat n | CFloat x \<Rightarrow> fmt x)"

definition CR :: char where "CR = CHR 0x0D"
definition LF :: char where "LF = CHR 0x0A"

text \<open>
  A field is quoted when it holds the delimiter, the quote character or a character of
  the line terminator; inside the quotes a quote character is doubled.
\<close>

definition special :: "char \<Rightarrow> bool" where
  "special c = (c = CHR '','' \<or> c = CHR 0x22 \<or> c = CR \<or> c = LF)"

definition quote_field :: "string \<Rightarrow> string" where
  "quote_field s =
     (if list_ex special s
      then [CHR 0x22] @ concat (map (\<lambda>c. if c = CHR 0x22 then [c, c] else [c]) s) @ [CHR 0x22]
      else s)"

fun join_fields :: "string list \<Rightarrow> string" where
  "join_fields [] = []"
| "join_fields [f] = quote_field f"
| "join_fields (f # fs) = quote_field f @ [CHR '',''] @ join_fields fs"

definition writerow :: "(rat \<Rightarrow> string) \<Rightarrow> cell list \<Rightarrow> string" where
  "writerow fmt row = join_fields (map (cell_str fmt) row) @ [CR, LF]"

text \<open>
  The export itself: the header row, then for each park of the summary, in the order of
  the dictionary, the row \<open>[park] + list(data.values())\<close>. The values of an entry come
  in the order in which \<open>park_summary\<close> created its keys: \<open>reviews\<close>, \<open>positive\<close>, \<open>avg\<close>,
  \<open>countries\<close>.
\<close>

definition header :: "string list" where
  "header = [''Park'', ''reviews'', ''positive'', ''avg'', ''countries'']"

definition summary_values :: "summary \<Rightarrow> cell list" where
  "summary_values data = [CInt (reviews data), CInt (positive data), CFloat (avg data), CInt (countries data)]"

definition csv_export :: "(rat \<Rightarrow> string) \<Rightarrow> (string \<times> summary) list \<Rightarrow> string" where
  "csv_export fmt summ =
     writerow fmt (map CStr header) @
     concat (map (\<lambda>(p, data). writerow fmt ([CStr p] @ summary_values data)) summ)"

subsection \<open>Reading the file back\<close>

text \<open>
  The program has no reader for the file it exports. The re-parsing is taken to be that
  of \<open>csv.reader\<close> of the standard library with the same dialect, followed by \<open>int\<close> on
  the three count columns; the \<open>avg\<close> column is kept as the text the writer produced.
  The reader is the state machine of the library, run over the characters of the file:
  a row ends at CR, LF or CR LF, a field starting with a quote runs to the closing quote,
  and a doubled quote inside it stands for one quote.
\<close>

datatype reader_mode = StartRecord | StartField | InField | InQuotedField | QuoteInQuotedField | EatCRNL

datatype reader_state = Reader reader_mode "string list list" "string list" string

definition end_field :: "string list list \<Rightarrow> string list \<Rightarrow> string \<Rightarrow> char \<Rightarrow> reader_state" where
  "end_field rows fs cur c =
     (if c = CHR '','' then Reader StartField rows (fs @ [cur]) []
      else if c = CR then Reader EatCRNL (rows @ [fs @ [cur]]) [] []
      else Reader StartRecord (rows @ [fs @ [cur]]) [] [])"

definition start_field :: "string list list \<Rightarrow> string list \<Rightarrow> char \<Rightarrow> reader_state" where
  "start_field rows fs c =
     (if c = CHR '','' \<or> c = CR \<or> c = LF then end_field rows fs [] c
      else if c = CHR 0x22 then Reader InQuotedField rows fs []
      else Reader InField rows fs [c])"

definition start_record :: "string list list \<Rightarrow> char \<Rightarrow> reader_state" where
  "start_record rows c =
     (if c = CR then Reader EatCRNL (rows @ [[]]) [] []
      else if c = LF then Reader StartRecord (rows @ [[]]) [] []
      else start_field rows [] c)"

fun reader_step :: "reader_state \<Rightarrow> char \<Rightarrow> reader_state" where
  "reader_step (Reader StartRecord rows fs cur) c = start_record rows c"
| "reader_step (Reader StartField rows fs cur) c = start_field rows fs c"
| "reader_step (Reader InField rows fs cur) c =
     (if c = CHR '','' \<or> c = CR \<or> c = LF then end_field rows fs cur c
      else Reader InField rows fs (cur @ [c]))"
| "reader_step (Reader InQuotedField rows fs cur) c =
     (if c = CHR 0x22 then Reader QuoteInQuotedField rows fs cur
      else Reader InQuotedField rows fs (cur @ [c]))"
| "reader_step (Reader QuoteInQuotedField rows fs cur) c =
     (if c = CHR 0x22 then Reader InQuotedField rows fs (cur @ [c])
      else if c = CHR '','' \<or> c = CR \<or> c = LF then end_field rows fs cur c
      else Reader InField rows fs (cur @ [c]))"
| "reader_step (Reader EatCRNL rows fs cur) c =
     (if c = LF then Reader StartRecord rows [] [] else start_record rows c)"

fun reader_finish :: "reader_state \<Rightarrow> string list list" where
  "reader_finish (Reader m rows fs cur) =
     (if m = StartRecord \<or> m = EatCRNL then rows else rows @ [fs @ [cur]])"

definition csv_reader :: "string \<Rightarrow> string list list" where
  "csv_reader text = reader_finish (foldl reader_step (Reader StartRecord [] [] []) text)"

text \<open>\<open>int(s)\<close> on a string of decimal digits; \<open>None\<close> stands for the \<open>ValueError\<close>.\<close>

definition digit_val :: "char \<Rightarrow> nat option" where
  "digit_val c = (let n = (of_char c :: nat) in if 48 \<le> n \<and> n \<le> 57 then Some (n - 48) else None)"

fun int_of_digits :: "nat \<Rightarrow> string \<Rightarrow> nat option" where
  "int_of_digits acc [] = Some acc"
| "int_of_digits acc (c # cs) =
     (case digit_val c of None \<Rightarrow> None | Some d \<Rightarrow> int_of_digits (10 * acc + d) cs)"

definition int_of_str :: "string \<Rightarrow> nat option" where
  "int_of_str s = (if s = [] then None else int_of_digits 0 s)"

text \<open>A row of five fields read back as the tuple (park, reviews, positive, avg, countries).\<close>

definition read_summary_row :: "string list \<Rightarrow> (string \<times> nat \<times> nat \<times> string \<times> nat) option" where
  "read_summary_row row =
     (case row of
        [p, r, pos, a, c] \<Rightarrow>
          (case (int_of_str r, int_of_str pos, int_of_str c) of
             (Some r', Some pos', Some c') \<Rightarrow> Some (p, r', pos', a, c')
           | _ \<Rightarrow> None)
      | _ \<Rightarrow> None)"

section \<open>Notions used in the statements\<close>

text \<open>The arithmetic mean of a list of ratings.\<close>

abbreviation mean :: "int list \<Rightarrow> rat" where
  "mean v \<equiv> of_int (sum_list v) / of_nat (length v)"

text \<open>The distinct elements of a list, in the order in which each is first met.\<close>

definition first_seen :: "'k list \<Rightarrow> 'k list" where
  "first_seen ks = rev (remdups (rev ks))"

text \<open>
  The accumulator and the finished summary entry that a group \<open>g\<close> of records of one park
  should give, written without a loop.
\<close>

definition summ_of :: "review list \<Rightarrow> summary_acc" where
  "summ_of g = \<lparr>acc_reviews = length g,
               acc_positive = length (filter (\<lambda>r. 4 \<le> rating r) g),
               acc_avg = of_int (sum_list (map rating g)),
               acc_countries = location ` set g\<rparr>"

definition entry_of :: "review list \<Rightarrow> summary" where
  "entry_of g = \<lparr>reviews = length g,
                positive = length (filter (\<lambda>r. 4 \<le> rating r) g),
                avg = round2 (mean (map rating g)),
                countries = card (location ` set g)\<rparr>"

text \<open>
  For the monthly averages: the month code of a record whose period splits at \<open>-\<close> into
  exactly two parts, the month name of that code, the records of a park that the first
  loop keeps, and the value the second loop gives a month name.
\<close>

definition month_code :: "review \<Rightarrow> string option" where
  "month_code r = (case split_on CHR ''-'' (year_month r) of [_, m] \<Rightarrow> Some m | _ \<Rightarrow> None)"

definition month_name :: "review \<Rightarrow> string option" where
  "month_name r = (case month_code r of None \<Rightarrow> None | Some m \<Rightarrow> map_of month_map m)"

definition month_selected :: "string \<Rightarrow> review \<Rightarrow> bool" where
  "month_selected p r = (lower (park r) = lower p \<and> month_name r \<noteq> None)"

definition month_value :: "(string \<times> int list) list \<Rightarrow> string \<Rightarrow> rat" where
  "month_value stats n =
     (case map_of stats n of None \<Rightarrow> 0 | Some v \<Rightarrow> if v \<noteq> [] then mean v else 0)"

text \<open>The fields of the row the exporter writes for one park, as text.\<close>

definition summary_row :: "(rat \<Rightarrow> string) \<Rightarrow> string \<times> summary \<Rightarrow> string list" where
  "summary_row fmt = (\<lambda>(p, data). map (cell_str fmt) ([CStr p] @ summary_values data))"

section \<open>Grouping by a key\<close>

text \<open>
  Every grouping loop of the source has the shape
  \<open>for r in reviews: update(m[key(r)], r)\<close>. The lemmas below describe the dictionary
  such a loop builds: its keys are the keys met, in the order in which they were first
  met, and the value of a key is the fold of the updates of its own records.
\<close>

lemma dict_modify_keys:
  "map fst (dict_modify k d f m) = (if k \<in> fst ` set m then map fst m else map fst m @ [k])"
  by (induction m) (auto simp: rev_image_eqI)

lemma dict_modify_distinct:
  "distinct (map fst m) \<Longrightarrow> distinct (map fst (dict_modify k d f m))"
  by (simp add: dict_modify_keys)

lemma dict_modify_map_of:
  "map_of (dict_modify k d f m) k' =
     (if k' = k then Some (f (case map_of m k of None \<Rightarrow> d | Some v \<Rightarrow> v)) else map_of m k')"
  by (induction m) auto

lemma first_seen_snoc:
  "first_seen (ks @ [k]) = (if k \<in> set ks then first_seen ks else first_seen ks @ [k])"
proof -
  have "remdups (k # rev ks) = (if k \<in> set ks then remdups (rev ks) else k # remdups (rev ks))"
    by simp
  then show ?thesis by (simp add: first_seen_def)
qed

lemma set_first_seen [simp]: "set (first_seen ks) = set ks"
  by (simp add: first_seen_def)

lemma distinct_first_seen [simp]: "distinct (first_seen ks)"
  by (simp add: first_seen_def)

lemma group_keys_gen:
  "map fst m = first_seen ks \<Longrightarrow>
   map fst (foldl (\<lambda>m r. dict_modify (key r) d (step r) m) m rs) = first_seen (ks @ map key rs)"
proof (induction rs arbitrary: m ks)
  case Nil
  then show ?case by simp
next
  case (Cons r rs)
  let ?m' = "dict_modify (key r) d (step r) m"
  have "fst ` set m = set ks"
    using Cons.prems by (metis set_first_seen set_map)
  then have "map fst ?m' = first_seen (ks @ [key r])"
    using Cons.prems by (simp add: dict_modify_keys first_seen_snoc)
  from Cons.IH [OF this] show ?case by simp
qed

lemma group_keys:
  "map fst (foldl (\<lambda>m r. dict_modify (key r) d (step r) m) [] rs) = first_seen (map key rs)"
  using group_keys_gen [of "[]" "[]" key d step rs] by (simp add: first_seen_def)

lemma group_distinct:
  "distinct (map fst (foldl (\<lambda>m r. dict_modify (key r) d (step r) m) [] rs))"
  by (simp add: group_keys)

lemma group_map_of_gen:
  "map_of (foldl (\<lambda>m r. dict_modify (key r) d (step r) m) m rs) k =
     (if k \<in> key ` set rs \<or> k \<in> dom (map_of m)
      then Some (foldl (\<lambda>v r. step r v) (case map_of m k of None \<Rightarrow> d | Some v \<Rightarrow> v)
                   (filter (\<lambda>r. key r = k) rs))
      else None)"
proof (induction rs arbitrary: m)
  case Nil
  then show ?case by (auto simp: domIff)
next
  case (Cons r rs)
  show ?case
    by (simp add: Cons.IH dict_modify_map_of domIff)
qed

lemma group_map_of:
  "map_of (foldl (\<lambda>m r. dict_modify (key r) d (step r) m) [] rs) k =
     (if k \<in> key ` set rs
      then Some (foldl (\<lambda>v r. step r v) d (filter (\<lambda>r. key r = k) rs))
      else None)"
  by (simp add: group_map_of_gen)

lemma counts_sum_step:
  "sum_list (map snd (dict_modify k 0 Suc m)) = Suc (sum_list (map snd m))"
  by (induction m) auto

lemma counts_sum_gen:
  "sum_list (map snd (foldl (\<lambda>c r. dict_modify (key r) 0 Suc c) m rs)) =
     sum_list (map snd m) + length rs"
  by (induction rs arbitrary: m) (simp_all add: counts_sum_step)

lemma count_fold: "foldl (\<lambda>v r. Suc v) n rs = n + length rs"
  by (induction rs arbitrary: n) simp_all

lemma reviews_count_keys:
  "map fst (reviews_count_per_park revs) = first_seen (map park revs)"
  unfolding reviews_count_per_park_def by (rule group_keys)

lemma reviews_count_map_of:
  "map_of (reviews_count_per_park revs) k =
     (if k \<in> park ` set revs then Some (length (filter (\<lambda>r. park r = k) revs)) else None)"
  unfolding reviews_count_per_park_def by (simp add: group_map_of count_fold)

lemma alist_rebuild:
  "distinct (map fst m) \<Longrightarrow> map (\<lambda>k. (k, the (map_of m k))) (map fst m) = m"
proof -
  assume "distinct (map fst m)"
  then have "\<forall>kv \<in> set m. map_of m (fst kv) = Some (snd kv)"
    by simp
  then have "map (\<lambda>kv. (fst kv, the (map_of m (fst kv)))) m = map (\<lambda>kv. kv) m"
    by (intro map_cong) auto
  then show ?thesis by (simp add: comp_def)
qed

lemma group_eq:
  "foldl (\<lambda>m r. dict_modify (key r) d (step r) m) [] rs =
     map (\<lambda>k. (k, foldl (\<lambda>v r. step r v) d (filter (\<lambda>r. key r = k) rs)))
       (first_seen (map key rs))"
proof -
  let ?m = "foldl (\<lambda>m r. dict_modify (key r) d (step r) m) [] rs"
  have "?m = map (\<lambda>k. (k, the (map_of ?m k))) (map fst ?m)"
    by (rule alist_rebuild [symmetric]) (rule group_distinct)
  also have "\<dots> = map (\<lambda>k. (k, the (map_of ?m k))) (first_seen (map key rs))"
    by (simp only: group_keys)
  also have "\<dots> = map (\<lambda>k. (k, foldl (\<lambda>v r. step r v) d (filter (\<lambda>r. key r = k) rs)))
       (first_seen (map key rs))"
    by (intro map_cong) (auto simp: group_map_of)
  finally show ?thesis .
qed

lemma fold_conditional:
  "foldl (\<lambda>m r. if P r then g m r else m) m rs = foldl g m (filter P rs)"
  by (induction rs arbitrary: m) simp_all

lemma append_fold: "foldl (\<lambda>v r. v @ [h r]) v0 rs = v0 @ map h rs"
  by (induction rs arbitrary: v0) simp_all

lemma avg_items_nonempty:
  "\<forall>(k, v) \<in> set kvs. v \<noteq> [] \<Longrightarrow> avg_items kvs = Inr (map (\<lambda>(k, v). (k, mean v)) kvs)"
  by (induction kvs) (auto simp: truediv_def)

lemma first_seen_filter_nonempty:
  "k \<in> set (first_seen (map key rs)) \<Longrightarrow> filter (\<lambda>r. key r = k) rs \<noteq> []"
  by (auto simp: filter_empty_conv)

lemma ratings_grouped:
  "foldl (\<lambda>stats r. dict_modify (key r) [] (\<lambda>v. v @ [rating r]) stats) [] rs =
     map (\<lambda>k. (k, map rating (filter (\<lambda>r. key r = k) rs))) (first_seen (map key rs))"
  by (simp add: group_eq append_fold)


lemma reviews_count_per_park_eq:
  "reviews_count_per_park revs =
     map (\<lambda>k. (k, length (filter (\<lambda>r. park r = k) revs))) (first_seen (map park revs))"
  by (simp add: reviews_count_per_park_def group_eq count_fold)

lemma summ_fold_gen:
  "foldl (\<lambda>s r. summ_step r s) (summ_of g) rs = summ_of (g @ rs)"
proof (induction rs arbitrary: g)
  case Nil
  then show ?case by simp
next
  case (Cons r rs)
  have "summ_step r (summ_of g) = summ_of (g @ [r])"
    by (simp add: summ_step_def summ_of_def)
  then show ?case using Cons.IH [of "g @ [r]"] by simp
qed

lemma summ_fold: "foldl (\<lambda>s r. summ_step r s) summ_default rs = summ_of rs"
  using summ_fold_gen [of "[]" rs] by (simp add: summ_of_def summ_default_def)

lemma summ_finish_nonempty:
  "\<forall>(k, g) \<in> set kgs. g \<noteq> [] \<Longrightarrow>
   summ_finish (map (\<lambda>(k, g). (k, summ_of g)) kgs) = Inr (map (\<lambda>(k, g). (k, entry_of g)) kgs)"
  by (induction kgs) (auto simp: truediv_def summ_of_def entry_of_def)

lemma park_summary_eq:
  "park_summary revs =
     Inr (map (\<lambda>k. (k, entry_of (filter (\<lambda>r. park r = k) revs))) (first_seen (map park revs)))"
proof -
  let ?kgs = "map (\<lambda>k. (k, filter (\<lambda>r. park r = k) revs)) (first_seen (map park revs))"
  have "\<forall>(k, g) \<in> set ?kgs. g \<noteq> []"
    by (auto simp: filter_empty_conv)
  from summ_finish_nonempty [OF this] show ?thesis
    by (simp add: park_summary_def group_eq summ_fold comp_def)
qed

subsection \<open>Bounds on a summary entry\<close>

lemma sum_list_bounds:
  fixes v :: "int list"
  assumes "\<forall>x \<in> set v. lo \<le> x \<and> x \<le> hi"
  shows "lo * int (length v) \<le> sum_list v \<and> sum_list v \<le> hi * int (length v)"
  using assms by (induction v) (auto simp: algebra_simps)

lemma mean_bounds:
  fixes v :: "int list"
  assumes "v \<noteq> []" and "\<forall>x \<in> set v. lo \<le> x \<and> x \<le> hi"
  shows "of_int lo \<le> mean v \<and> mean v \<le> of_int hi"
proof -
  have n: "(0::rat) < of_nat (length v)"
    using assms(1) by simp
  have "rat_of_int (lo * int (length v)) \<le> of_int (sum_list v)"
    and "rat_of_int (sum_list v) \<le> of_int (hi * int (length v))"
    using sum_list_bounds [OF assms(2)] by (simp_all only: of_int_le_iff)
  then have "of_int lo * of_nat (length v) \<le> rat_of_int (sum_list v)"
    and "rat_of_int (sum_list v) \<le> of_int hi * of_nat (length v)"
    by simp_all
  then show ?thesis
    using n by (simp add: pos_le_divide_eq pos_divide_le_eq)
qed

lemma round_half_even_lower: "of_int a \<le> y \<Longrightarrow> a \<le> round_half_even y"
proof -
  assume "of_int a \<le> y"
  then have "a \<le> \<lfloor>y\<rfloor>" by (simp add: le_floor_iff)
  then show ?thesis by (simp add: round_half_even_def Let_def)
qed

lemma round_half_even_upper: "y \<le> of_int b \<Longrightarrow> round_half_even y \<le> b"
proof (cases "y = of_int \<lfloor>y\<rfloor>")
  case True
  assume "y \<le> of_int b"
  then have "\<lfloor>y\<rfloor> \<le> b" by (simp add: floor_le_iff)
  moreover have "y - of_int \<lfloor>y\<rfloor> = 0" using True by simp
  ultimately show ?thesis by (simp add: round_half_even_def Let_def)
next
  case False
  assume le: "y \<le> of_int b"
  have "of_int \<lfloor>y\<rfloor> < y" using False of_int_floor_le [of y] by linarith
  then have "of_int \<lfloor>y\<rfloor> < (of_int b :: rat)" using le by linarith
  then have "\<lfloor>y\<rfloor> < b" by (simp only: of_int_less_iff)
  then show ?thesis by (simp add: round_half_even_def Let_def)
qed

lemma round2_bounds:
  assumes "of_int lo \<le> x" and "x \<le> of_int hi"
  shows "of_int lo \<le> round2 x \<and> round2 x \<le> of_int hi"
proof -
  have "of_int (lo * 100) \<le> x * 100" and "x * 100 \<le> of_int (hi * 100)"
    using assms by simp_all
  then have "lo * 100 \<le> round_half_even (x * 100)" and "round_half_even (x * 100) \<le> hi * 100"
    by (simp_all only: round_half_even_lower round_half_even_upper)
  then have "rat_of_int (lo * 100) \<le> of_int (round_half_even (x * 100))"
    and "rat_of_int (round_half_even (x * 100)) \<le> of_int (hi * 100)"
    by (simp_all only: of_int_le_iff)
  then show ?thesis
    by (simp add: round2_def)
qed

lemma entry_of_bounds:
  "positive (entry_of g) \<le> reviews (entry_of g) \<and> countries (entry_of g) \<le> reviews (entry_of g)"
proof -
  have "card (location ` set g) \<le> card (set g)"
    by (rule card_image_le) simp
  also have "\<dots> \<le> length g" by (rule card_length)
  finally show ?thesis by (simp add: entry_of_def)
qed

lemma entry_of_avg_bounds:
  assumes "g \<noteq> []" and "\<forall>r \<in> set g. 1 \<le> rating r \<and> rating r \<le> 5"
  shows "0 \<le> avg (entry_of g) \<and> avg (entry_of g) \<le> 5"
proof -
  have "map rating g \<noteq> []" and "\<forall>x \<in> set (map rating g). 1 \<le> x \<and> x \<le> 5"
    using assms by auto
  from mean_bounds [OF this]
  have "of_int 1 \<le> mean (map rating g) \<and> mean (map rating g) \<le> of_int 5" .
  then have "of_int 1 \<le> round2 (mean (map rating g)) \<and> round2 (mean (map rating g)) \<le> of_int 5"
    using round2_bounds by blast
  then show ?thesis by (simp add: entry_of_def)
qed

lemma map_of_tabulate:
  "map_of (map (\<lambda>k. (k, f k)) ks) k = (if k \<in> set ks then Some (f k) else None)"
  by (induction ks) auto

subsection \<open>Monthly averages\<close>

lemma split_on_nonempty: "split_on c s \<noteq> []"
  by (induction s) (auto split: list.splits)

lemma length_split_on: "length (split_on c s) = Suc (count_list s c)"
  by (induction s) (auto split: list.splits simp: split_on_nonempty)

lemma month_code_defined: "(month_code r \<noteq> None) = (count_list (year_month r) CHR ''-'' = 1)"
proof -
  have "(month_code r \<noteq> None) = (length (split_on CHR ''-'' (year_month r)) = 2)"
    by (auto simp: month_code_def split: list.splits)
  then show ?thesis by (simp add: length_split_on)
qed

lemma month_names_nonempty: "map_of month_map m = Some n \<Longrightarrow> n \<noteq> []"
  by (auto simp: month_map_def split: if_splits)

lemma month_map_distinct: "distinct (map fst month_map)" "distinct (map snd month_map)"
  by (simp_all add: month_map_def)

lemma month_map_inj:
  assumes "(c, n) \<in> set month_map"
  shows "(map_of month_map m = Some n) = (m = c)"
proof -
  have swap: "distinct (map fst (map (\<lambda>(a, b). (b, a)) month_map))"
    using month_map_distinct(2) by (simp add: comp_def case_prod_unfold)
  show ?thesis
  proof
    assume "map_of month_map m = Some n"
    then have "(m, n) \<in> set month_map" by (rule map_of_SomeD)
    then have "(n, m) \<in> set (map (\<lambda>(a, b). (b, a)) month_map)"
      and "(n, c) \<in> set (map (\<lambda>(a, b). (b, a)) month_map)"
      using assms by force+
    then show "m = c" using swap by (rule eq_key_imp_eq_value [rotated])
  next
    assume "m = c"
    then show "map_of month_map m = Some n"
      using assms month_map_distinct(1) by simp
  qed
qed

lemma monthly_stats_eq:
  assumes "\<forall>r \<in> set revs. lower (park r) = lower p \<longrightarrow> month_code r \<noteq> None"
  shows "monthly_stats p stats revs =
           Inr (foldl (\<lambda>st r. dict_modify (the (month_name r)) [] (\<lambda>v. v @ [rating r]) st) stats
                  (filter (month_selected p) revs))"
  using assms
proof (induction revs arbitrary: stats)
  case Nil
  then show ?case by simp
next
  case (Cons r rs)
  have IH: "monthly_stats p st rs =
           Inr (foldl (\<lambda>st r. dict_modify (the (month_name r)) [] (\<lambda>v. v @ [rating r]) st) st
                  (filter (month_selected p) rs))" for st
    using Cons by simp
  show ?case
  proof (cases "lower (park r) = lower p")
    case False
    then have "\<not> month_selected p r" by (simp add: month_selected_def)
    then show ?thesis using False by (simp add: IH)
  next
    case True
    with Cons.prems obtain m where m: "month_code r = Some m" by auto
    then obtain y where sp: "split_on CHR ''-'' (year_month r) = [y, m]"
      by (auto simp: month_code_def split: list.splits)
    show ?thesis
    proof (cases "map_of month_map m")
      case None
      then have "\<not> month_selected p r" using m by (simp add: month_selected_def month_name_def)
      then show ?thesis using True sp None by (simp add: IH)
    next
      case (Some n)
      then have n: "n \<noteq> []" by (rule month_names_nonempty)
      have "month_selected p r" and "the (month_name r) = n"
        using True m Some by (simp_all add: month_selected_def month_name_def)
      then show ?thesis using True sp Some n by (simp add: IH)
    qed
  qed
qed

lemma dict_modify_absent:
  "k \<notin> fst ` set m \<Longrightarrow> dict_modify k d f m = m @ [(k, f d)]"
  by (induction m) auto

lemma monthly_ordered_eq:
  "distinct names \<Longrightarrow> set names \<inter> fst ` set ordered = {} \<Longrightarrow>
   monthly_ordered stats ordered names = Inr (ordered @ map (\<lambda>n. (n, month_value stats n)) names)"
proof (induction names arbitrary: ordered)
  case Nil
  then show ?case by simp
next
  case (Cons n names)
  let ?a = "month_value stats n"
  have val: "(case map_of stats n of
              None \<Rightarrow> Inr 0
            | Some v \<Rightarrow> if v \<noteq> [] then truediv (of_int (sum_list v)) (length v) else Inr 0) = Inr ?a"
    by (simp add: month_value_def truediv_def split: option.splits)
  have "n \<notin> fst ` set ordered" using Cons.prems by auto
  then have set: "dict_set n ?a ordered = ordered @ [(n, ?a)]"
    by (simp add: dict_set_def dict_modify_absent)
  have "set names \<inter> fst ` set (ordered @ [(n, ?a)]) = {}" and "distinct names"
    using Cons.prems by auto
  from Cons.IH [OF this(2) this(1)] show ?case
    by (simp only: monthly_ordered.simps val sum.case set) simp
qed

lemma avg_monthly_rating_eq:
  assumes "\<forall>r \<in> set revs. lower (park r) = lower p \<longrightarrow> month_code r \<noteq> None"
  shows "avg_monthly_rating revs p =
           Inr (map (\<lambda>n. (n, month_value
                  (map (\<lambda>k. (k, map rating (filter (\<lambda>r. the (month_name r) = k)
                                               (filter (month_selected p) revs))))
                     (first_seen (map (\<lambda>r. the (month_name r)) (filter (month_selected p) revs))))
                  n)) (map snd month_map))"
  using month_map_distinct(2)
  by (simp add: avg_monthly_rating_def monthly_stats_eq [OF assms] ratings_grouped
      monthly_ordered_eq)

lemma month_group:
  assumes "(c, n) \<in> set month_map"
  shows "filter (\<lambda>r. the (month_name r) = n) (filter (month_selected p) revs) =
         filter (\<lambda>r. lower (park r) = lower p \<and> month_code r = Some c) revs"
proof -
  have "(month_selected p r \<and> the (month_name r) = n) =
        (lower (park r) = lower p \<and> month_code r = Some c)" for r
  proof (cases "month_code r")
    case None
    then show ?thesis by (simp add: month_selected_def month_name_def)
  next
    case (Some m)
    have "(map_of month_map m \<noteq> None \<and> the (map_of month_map m) = n) =
          (map_of month_map m = Some n)"
      by auto
    then show ?thesis
      using Some month_map_inj [OF assms, of m]
      by (auto simp add: month_selected_def month_name_def)
  qed
  then show ?thesis by (simp add: conj_commute)
qed

lemma month_value_group:
  assumes "(c, n) \<in> set month_map"
  shows "month_value
           (map (\<lambda>k. (k, map rating (filter (\<lambda>r. the (month_name r) = k)
                                        (filter (month_selected p) revs))))
              (first_seen (map (\<lambda>r. the (month_name r)) (filter (month_selected p) revs)))) n =
         (let g = filter (\<lambda>r. lower (park r) = lower p \<and> month_code r = Some c) revs
          in if g = [] then 0 else mean (map rating g))"
proof -
  let ?sel = "filter (month_selected p) revs"
  let ?g = "filter (\<lambda>r. lower (park r) = lower p \<and> month_code r = Some c) revs"
  have g: "filter (\<lambda>r. the (month_name r) = n) ?sel = ?g"
    by (rule month_group [OF assms])
  have "(n \<in> set (first_seen (map (\<lambda>r. the (month_name r)) ?sel))) =
        (filter (\<lambda>r. the (month_name r) = n) ?sel \<noteq> [])"
    by (simp only: set_first_seen filter_empty_conv) auto
  then have mem: "(n \<in> set (first_seen (map (\<lambda>r. the (month_name r)) ?sel))) = (?g \<noteq> [])"
    by (simp only: g)
  show ?thesis
    by (simp only: month_value_def map_of_tabulate g mem Let_def) simp
qed

lemma monthly_stats_raises:
  assumes "r \<in> set revs" and "lower (park r) = lower p" and "month_code r = None"
  shows "monthly_stats p stats revs = Inl ValueError"
  using assms(1)
proof (induction revs arbitrary: stats)
  case Nil
  then show ?case by simp
next
  case (Cons x xs)
  show ?case
  proof (cases "x = r")
    case True
    have "(case split_on CHR ''-'' (year_month r) of
             [_, m] \<Rightarrow> (f m :: py_error + (string \<times> int list) list) | _ \<Rightarrow> Inl ValueError) = Inl ValueError" for f
      using assms(3) by (auto simp: month_code_def split: list.splits)
    then show ?thesis using True assms(2) by simp
  next
    case False
    then have "r \<in> set xs" using Cons.prems by simp
    then have IH: "monthly_stats p st xs = Inl ValueError" for st
      by (rule Cons.IH)
    show ?thesis
      by (simp add: IH split: list.splits option.splits)
  qed
qed

lemma avg_monthly_rating_raises:
  assumes "r \<in> set revs" and "lower (park r) = lower p"
    and "count_list (year_month r) CHR ''-'' \<noteq> 1"
  shows "avg_monthly_rating revs p = Inl ValueError"
proof -
  have "month_code r = None" using assms(3) month_code_defined [of r] by blast
  from monthly_stats_raises [OF assms(1,2) this] show ?thesis
    by (simp add: avg_monthly_rating_def)
qed

subsection \<open>The message of the year-average query\<close>

lemma year_average_message_no_data:
  "(year_average_message p year a = NoData) = (a = None \<or> a = Some 0)"
  by (cases a) (simp_all add: year_average_message_def truthy_def)

subsection \<open>Top locations\<close>

lemma dict_of_pairs_gen:
  "distinct (map fst (m @ kvs)) \<Longrightarrow> foldl (\<lambda>m (k, v). dict_set k v m) m kvs = m @ kvs"
proof (induction kvs arbitrary: m)
  case Nil
  then show ?case by simp
next
  case (Cons kv kvs)
  obtain k v where kv: "kv = (k, v)" by (cases kv)
  have "k \<notin> fst ` set m" using Cons.prems kv by auto
  then have step: "dict_set k v m = m @ [(k, v)]"
    by (simp add: dict_set_def dict_modify_absent)
  have "distinct (map fst ((m @ [(k, v)]) @ kvs))" using Cons.prems kv by simp
  from Cons.IH [OF this] show ?case using kv step by simp
qed

lemma dict_of_pairs_distinct: "distinct (map fst kvs) \<Longrightarrow> dict_of_pairs kvs = kvs"
  using dict_of_pairs_gen [of "[]" kvs] by (simp add: dict_of_pairs_def)

lemma slice_to_prefix: "prefix (slice_to xs n) xs"
  by (simp add: slice_to_def take_is_prefix)

lemma slice_to_length: "0 \<le> n \<Longrightarrow> int (length (slice_to xs n)) \<le> n"
  by (simp add: slice_to_def)

lemma sorted_reverse_keys_distinct:
  "distinct (map fst kvs) \<Longrightarrow> distinct (map fst (sorted_reverse key kvs))"
  by (simp add: sorted_reverse_def distinct_map)

lemma sorted_reverse_descending: "sorted_wrt (\<lambda>x y. key y \<le> key x) (sorted_reverse key xs)"
proof -
  have "sorted (map (\<lambda>x. - key x) (sorted_reverse key xs))"
    unfolding sorted_reverse_def by (rule sorted_sort_key)
  then show ?thesis by (simp add: sorted_map)
qed

lemma sorted_reverse_stable:
  "filter (\<lambda>x. key x = a) (sorted_reverse key xs) = filter (\<lambda>x. key x = a) xs"
  using sort_key_stable [of "\<lambda>x. - key x" "- a" xs] by (simp add: sorted_reverse_def)

lemma prefix_distinct_keys: "prefix ys xs \<Longrightarrow> distinct (map fst xs) \<Longrightarrow> distinct (map fst ys)"
  by (auto simp: prefix_def)

lemma prefix_sorted_wrt: "prefix ys xs \<Longrightarrow> sorted_wrt P xs \<Longrightarrow> sorted_wrt P ys"
  by (auto simp: prefix_def sorted_wrt_append)

lemma prefix_filter: "prefix ys xs \<Longrightarrow> prefix (filter P ys) (filter P xs)"
  by (auto simp: prefix_def)

lemma top_locations_eq:
  fixes revs :: "review list" and p :: string
  defines "M \<equiv> filter (\<lambda>r. lower (park r) = lower p) revs"
  shows "top_locations_for_park revs p topn =
     Inr (slice_to (sorted_reverse snd
            (map (\<lambda>l. (l, mean (map rating (filter (\<lambda>r. location r = l) M))))
               (first_seen (map location M)))) topn)"
proof -
  let ?stats = "map (\<lambda>l. (l, map rating (filter (\<lambda>r. location r = l) M))) (first_seen (map location M))"
  let ?avgs = "map (\<lambda>l. (l, mean (map rating (filter (\<lambda>r. location r = l) M)))) (first_seen (map location M))"
  have stats: "foldl (\<lambda>stats r.
                    if lower (park r) = lower p
                    then dict_modify (location r) [] (\<lambda>v. v @ [rating r]) stats
                    else stats) [] revs = ?stats"
    by (simp only: fold_conditional ratings_grouped M_def)
  have "\<forall>(k, v) \<in> set ?stats. v \<noteq> []"
    by (auto simp: filter_empty_conv)
  from avg_items_nonempty [OF this] have avgs: "avg_items ?stats = Inr ?avgs"
    by (simp add: comp_def)
  have "distinct (map fst ?avgs)" by (simp add: comp_def)
  then have "distinct (map fst (sorted_reverse snd ?avgs))"
    by (rule sorted_reverse_keys_distinct)
  with slice_to_prefix have "distinct (map fst (slice_to (sorted_reverse snd ?avgs) topn))"
    by (rule prefix_distinct_keys)
  then have "dict_of_pairs (slice_to (sorted_reverse snd ?avgs) topn) =
             slice_to (sorted_reverse snd ?avgs) topn"
    by (rule dict_of_pairs_distinct)
  then show ?thesis
    by (simp only: top_locations_for_park_def stats avgs Let_def sum.case)
qed

subsection \<open>The reader inverts the writer\<close>

lemma csv_chars_distinct [simp]:
  "CR \<noteq> LF" "LF \<noteq> CR"
  "CR \<noteq> CHR 0x22" "CHR 0x22 \<noteq> CR" "LF \<noteq> CHR 0x22" "CHR 0x22 \<noteq> LF"
  "CR \<noteq> CHR '',''" "CHR '','' \<noteq> CR" "LF \<noteq> CHR '',''" "CHR '','' \<noteq> LF"
  by (simp_all add: CR_def LF_def)

lemma special_terminator: "c = CHR '','' \<or> c = CR \<or> c = LF \<Longrightarrow> c \<noteq> CHR 0x22"
  by (auto simp: CR_def LF_def)

lemma not_special:
  "\<not> special c \<Longrightarrow> c \<noteq> CHR '','' \<and> c \<noteq> CHR 0x22 \<and> c \<noteq> CR \<and> c \<noteq> LF"
  by (simp add: special_def)

lemma reader_plain:
  "\<not> list_ex special s \<Longrightarrow>
   foldl reader_step (Reader InField rows fs cur) s = Reader InField rows fs (cur @ s)"
proof (induction s arbitrary: cur)
  case Nil
  then show ?case by simp
next
  case (Cons c s)
  then have "\<not> special c" and "\<not> list_ex special s" by simp_all
  then show ?case using Cons.IH [of "cur @ [c]"] by (simp add: not_special)
qed

lemma reader_quoted:
  "foldl reader_step (Reader InQuotedField rows fs cur)
     (concat (map (\<lambda>c. if c = CHR 0x22 then [c, c] else [c]) s)) =
   Reader InQuotedField rows fs (cur @ s)"
proof (induction s arbitrary: cur)
  case Nil
  then show ?case by simp
next
  case (Cons c s)
  show ?case
  proof (cases "c = CHR 0x22")
    case True
    then show ?thesis using Cons.IH [of "cur @ [CHR 0x22]"] by simp
  next
    case False
    then show ?thesis using Cons.IH [of "cur @ [c]"] by simp
  qed
qed

lemma reader_field_from_start_field:
  assumes "t = CHR '','' \<or> t = CR \<or> t = LF"
  shows "reader_step (foldl reader_step (Reader StartField rows fs []) (quote_field f)) t =
         end_field rows fs f t"
proof (cases "list_ex special f")
  case True
  have t: "t \<noteq> CHR 0x22" using assms by (rule special_terminator)
  show ?thesis
    using True t assms by (simp add: quote_field_def start_field_def reader_quoted)
next
  case False
  show ?thesis
  proof (cases f)
    case Nil
    then show ?thesis using False assms by (simp add: quote_field_def start_field_def)
  next
    case (Cons c cs)
    then have "\<not> special c" and "\<not> list_ex special cs" using False by simp_all
    then show ?thesis
      using Cons False assms
      by (simp add: quote_field_def start_field_def reader_plain not_special)
  qed
qed

lemma reader_field_from_start_record:
  "reader_step (foldl reader_step (Reader StartRecord rows fs cur) (quote_field f)) (CHR '','') =
   end_field rows [] f (CHR '','')"
proof (cases "list_ex special f")
  case True
  then show ?thesis
    by (simp add: quote_field_def start_record_def start_field_def reader_quoted)
next
  case False
  show ?thesis
  proof (cases f)
    case Nil
    then show ?thesis
      using False by (simp add: quote_field_def start_record_def start_field_def)
  next
    case (Cons c cs)
    then have "\<not> special c" and "\<not> list_ex special cs" using False by simp_all
    then show ?thesis
      using Cons False
      by (simp add: quote_field_def start_record_def start_field_def reader_plain not_special)
  qed
qed

lemma reader_rest_of_row:
  "fs' \<noteq> [] \<Longrightarrow>
   foldl reader_step (Reader StartField rows fs []) (join_fields fs' @ [CR, LF]) =
   Reader StartRecord (rows @ [fs @ fs']) [] []"
proof (induction fs' arbitrary: fs rule: join_fields.induct)
  case 1
  then show ?case by simp
next
  case (2 f)
  show ?case
    by (simp add: reader_field_from_start_field end_field_def)
next
  case (3 f g gs)
  show ?case
    using "3.IH" [of "fs @ [f]"]
    by (simp add: reader_field_from_start_field end_field_def)
qed

lemma reader_row:
  assumes "fs' \<noteq> []"
  shows "foldl reader_step (Reader StartRecord rows fs cur) (join_fields (f # fs') @ [CR, LF]) =
         Reader StartRecord (rows @ [f # fs']) [] []"
proof -
  from assms obtain g gs where fs': "fs' = g # gs" by (cases fs') auto
  show ?thesis
    using reader_rest_of_row [OF assms, of rows "[f]"]
    by (simp add: fs' reader_field_from_start_record end_field_def)
qed

lemma reader_rows:
  "\<forall>row \<in> set rs. 2 \<le> length row \<Longrightarrow>
   foldl reader_step (Reader StartRecord rows [] [])
     (concat (map (\<lambda>row. join_fields row @ [CR, LF]) rs)) =
   Reader StartRecord (rows @ rs) [] []"
proof (induction rs arbitrary: rows)
  case Nil
  then show ?case by simp
next
  case (Cons row rs)
  then have "2 \<le> length row" by simp
  then obtain f fs' where row: "row = f # fs'" and ne: "fs' \<noteq> []"
    by (cases row) force+
  let ?rest = "concat (map (\<lambda>row. join_fields row @ [CR, LF]) rs)"
  have first: "foldl reader_step (Reader StartRecord rows [] []) (join_fields row @ [CR, LF]) =
               Reader StartRecord (rows @ [row]) [] []"
    unfolding row by (rule reader_row [OF ne])
  have rest: "\<forall>row \<in> set rs. 2 \<le> length row" using Cons.prems by simp
  have "foldl reader_step (Reader StartRecord rows [] []) ((join_fields row @ [CR, LF]) @ ?rest) =
        foldl reader_step
          (foldl reader_step (Reader StartRecord rows [] []) (join_fields row @ [CR, LF])) ?rest"
    by (rule foldl_append)
  also have "\<dots> = foldl reader_step (Reader StartRecord (rows @ [row]) [] []) ?rest"
    by (simp only: first)
  also have "\<dots> = Reader StartRecord ((rows @ [row]) @ rs) [] []"
    by (rule Cons.IH [OF rest])
  finally show ?case by simp
qed

declare str_nat.simps [simp del]

lemma digit_val_digit_char: "d < 10 \<Longrightarrow> digit_val (digit_char d) = Some d"
  by (simp add: digit_val_def digit_char_def)

lemma int_of_digits_snoc:
  "int_of_digits acc (s @ [c]) =
     (case int_of_digits acc s of
        None \<Rightarrow> None
      | Some a \<Rightarrow> (case digit_val c of None \<Rightarrow> None | Some d \<Rightarrow> Some (10 * a + d)))"
  by (induction s arbitrary: acc) (auto split: option.splits)

lemma int_of_digits_str_nat: "int_of_digits 0 (str_nat n) = Some n"
proof (induction n rule: str_nat.induct)
  case (1 n)
  show ?case
  proof (cases "n < 10")
    case True
    then show ?thesis
      by (subst str_nat.simps) (simp add: digit_val_digit_char)
  next
    case False
    then have "int_of_digits 0 (str_nat (n div 10)) = Some (n div 10)" by (rule "1.IH")
    then show ?thesis
      using False
      by (subst str_nat.simps) (simp add: int_of_digits_snoc digit_val_digit_char)
  qed
qed

lemma str_nat_nonempty: "str_nat n \<noteq> []"
  by (subst str_nat.simps) simp

lemma int_of_str_str_nat: "int_of_str (str_nat n) = Some n"
  by (simp add: int_of_str_def str_nat_nonempty int_of_digits_str_nat)

lemma csv_export_rows:
  "csv_export fmt summ =
     concat (map (\<lambda>row. join_fields row @ [CR, LF]) (header # map (summary_row fmt) summ))"
proof -
  have "map (cell_str fmt) (map CStr header) = header"
    by (simp add: cell_str_def comp_def)
  then show ?thesis
    by (simp add: csv_export_def writerow_def summary_row_def comp_def case_prod_unfold)
qed

lemma csv_reader_export:
  "csv_reader (csv_export fmt summ) = header # map (summary_row fmt) summ"
proof -
  have "\<forall>row \<in> set (header # map (summary_row fmt) summ). 2 \<le> length row"
    by (auto simp: header_def summary_row_def summary_values_def)
  from reader_rows [OF this, of "[]"] show ?thesis
    by (simp only: csv_reader_def csv_export_rows) simp
qed

lemma read_summary_row_ok:
  "read_summary_row (summary_row fmt (p, data)) =
     Some (p, reviews data, positive data, fmt (avg data), countries data)"
  by (simp add: read_summary_row_def summary_row_def summary_values_def cell_str_def
      int_of_str_str_nat)

section \<open>Concrete evaluations shared by the examples\<close>

lemma lower_paris: "lower ''PARIS'' = lower ''Paris''"
  by code_simp

lemma lower_orlando: "lower ''Orlando'' \<noteq> lower ''Paris''"
  by code_simp

section \<open>The claims\<close>



text \<open>
  Claim C5. The counts in the map returned by \<open>reviews_count_per_park\<close> add up to the
  length of the input sequence. (The empty sequence is included: the map is then empty
  and the sum is 0.)
\<close>

theorem reviews_count_sum: "sum_list (map snd (reviews_count_per_park revs)) = length revs"
  by (simp add: reviews_count_per_park_def counts_sum_gen)

text \<open>
  Claim C7. The keys of the map returned by \<open>reviews_count_per_park\<close> are the raw park
  strings of the input. Two records whose park strings differ, but only in letter case,
  give two distinct keys, each counting the records of exactly its own spelling, whereas
  \<open>get_reviews_by_park\<close> matches the park without regard to case: for every query it
  returns, in their order, exactly the records whose lower-cased park is the lower-cased
  query, and so both records for either spelling.
\<close>

theorem count_keys_raw_filter_caseless:
  assumes "r1 \<in> set revs" and "r2 \<in> set revs"
    and "park r1 \<noteq> park r2" and "lower (park r1) = lower (park r2)"
  shows "set (map fst (reviews_count_per_park revs)) = park ` set revs \<and>
         distinct (map fst (reviews_count_per_park revs)) \<and>
         map_of (reviews_count_per_park revs) (park r1) =
           Some (length (filter (\<lambda>r. park r = park r1) revs)) \<and>
         map_of (reviews_count_per_park revs) (park r2) =
           Some (length (filter (\<lambda>r. park r = park r2) revs)) \<and>
         {r1, r2} \<subseteq> set (get_reviews_by_park revs (park r1)) \<and>
         {r1, r2} \<subseteq> set (get_reviews_by_park revs (park r2)) \<and>
         get_reviews_by_park revs (park r1) = get_reviews_by_park revs (park r2) \<and>
         (\<forall>q. get_reviews_by_park revs q = filter (\<lambda>r. lower (park r) = lower q) revs) \<and>
         (\<forall>q r. r \<in> set revs \<and> lower (park r) \<noteq> lower q \<longrightarrow>
                r \<notin> set (get_reviews_by_park revs q))"
  using assms by (simp add: reviews_count_keys reviews_count_map_of get_reviews_by_park_def)

theorem count_keys_raw_filter_caseless_witness:
  "map_of (reviews_count_per_park
     [\<lparr>id_review = 1, rating = 5, year_month = ''2019-01'', location = ''Brazil'', park = ''PARIS''\<rparr>,
      \<lparr>id_review = 2, rating = 4, year_month = ''2019-02'', location = ''USA'', park = ''Paris''\<rparr>,
      \<lparr>id_review = 3, rating = 3, year_month = ''2019-03'', location = ''France'', park = ''Orlando''\<rparr>]) ''PARIS'' = Some 1 \<and>
   map_of (reviews_count_per_park
     [\<lparr>id_review = 1, rating = 5, year_month = ''2019-01'', location = ''Brazil'', park = ''PARIS''\<rparr>,
      \<lparr>id_review = 2, rating = 4, year_month = ''2019-02'', location = ''USA'', park = ''Paris''\<rparr>,
      \<lparr>id_review = 3, rating = 3, year_month = ''2019-03'', location = ''France'', park = ''Orlando''\<rparr>]) ''Paris'' = Some 1 \<and>
   get_reviews_by_park
     [\<lparr>id_review = 1, rating = 5, year_month = ''2019-01'', location = ''Brazil'', park = ''PARIS''\<rparr>,
      \<lparr>id_review = 2, rating = 4, year_month = ''2019-02'', location = ''USA'', park = ''Paris''\<rparr>,
      \<lparr>id_review = 3, rating = 3, year_month = ''2019-03'', location = ''France'', park = ''Orlando''\<rparr>] ''PARIS'' =
     [\<lparr>id_review = 1, rating = 5, year_month = ''2019-01'', location = ''Brazil'', park = ''PARIS''\<rparr>,
      \<lparr>id_review = 2, rating = 4, year_month = ''2019-02'', location = ''USA'', park = ''Paris''\<rparr>] \<and>
   get_reviews_by_park
     [\<lparr>id_review = 1, rating = 5, year_month = ''2019-01'', location = ''Brazil'', park = ''PARIS''\<rparr>,
      \<lparr>id_review = 2, rating = 4, year_month = ''2019-02'', location = ''USA'', park = ''Paris''\<rparr>,
      \<lparr>id_review = 3, rating = 3, year_month = ''2019-03'', location = ''France'', park = ''Orlando''\<rparr>] ''Paris'' =
     [\<lparr>id_review = 1, rating = 5, year_month = ''2019-01'', location = ''Brazil'', park = ''PARIS''\<rparr>,
      \<lparr>id_review = 2, rating = 4, year_month = ''2019-02'', location = ''USA'', park = ''Paris''\<rparr>]"
  using count_keys_raw_filter_caseless [where revs =
     "[\<lparr>id_review = 1, rating = 5, year_month = ''2019-01'', location = ''Brazil'', park = ''PARIS''\<rparr>,
      \<lparr>id_review = 2, rating = 4, year_month = ''2019-02'', location = ''USA'', park = ''Paris''\<rparr>,
      \<lparr>id_review = 3, rating = 3, year_month = ''2019-03'', location = ''France'', park = ''Orlando''\<rparr>]"
     and ?r1.0 = "\<lparr>id_review = 1, rating = 5, year_month = ''2019-01'', location = ''Brazil'', park = ''PARIS''\<rparr>"
     and ?r2.0 = "\<lparr>id_review = 2, rating = 4, year_month = ''2019-02'', location = ''USA'', park = ''Paris''\<rparr>"]
  by (simp add: lower_paris lower_orlando)

text \<open>
  Claim C2. For every record sequence whose ratings all lie in 1..5, \<open>park_summary\<close>
  returns a summary in which every park entry satisfies \<open>positive \<le> reviews\<close>,
  \<open>0 \<le> avg \<le> 5\<close> and \<open>countries \<le> reviews\<close>; and a park string with zero records is
  not a key of the summary.
\<close>

theorem park_summary_bounds:
  assumes "\<forall>r \<in> set revs. 1 \<le> rating r \<and> rating r \<le> 5"
  shows "\<exists>summ. park_summary revs = Inr summ \<and>
           (\<forall>(p, e) \<in> set summ.
              positive e \<le> reviews e \<and> 0 \<le> avg e \<and> avg e \<le> 5 \<and> countries e \<le> reviews e) \<and>
           (\<forall>p. filter (\<lambda>r. park r = p) revs = [] \<longrightarrow> p \<notin> fst ` set summ)"
proof -
  let ?summ = "map (\<lambda>k. (k, entry_of (filter (\<lambda>r. park r = k) revs))) (first_seen (map park revs))"
  have eq: "park_summary revs = Inr ?summ" by (rule park_summary_eq)
  have "positive e \<le> reviews e \<and> 0 \<le> avg e \<and> avg e \<le> 5 \<and> countries e \<le> reviews e"
    if "(p, e) \<in> set ?summ" for p e
  proof -
    let ?g = "filter (\<lambda>r. park r = p) revs"
    from that have e: "e = entry_of ?g" and "p \<in> park ` set revs" by auto
    then have "?g \<noteq> []" by (auto simp: filter_empty_conv)
    moreover have "\<forall>r \<in> set ?g. 1 \<le> rating r \<and> rating r \<le> 5" using assms by simp
    ultimately show ?thesis
      using entry_of_bounds [of ?g] entry_of_avg_bounds [of ?g] e by simp
  qed
  moreover have "p \<notin> fst ` set ?summ" if "filter (\<lambda>r. park r = p) revs = []" for p
    using that by (auto simp: filter_empty_conv)
  ultimately show ?thesis using eq by blast
qed

theorem park_summary_bounds_witness:
  "\<exists>summ. park_summary
      [\<lparr>id_review = 1, rating = 5, year_month = ''2019-01'', location = ''Brazil'', park = ''Paris''\<rparr>,
      \<lparr>id_review = 2, rating = 2, year_month = ''2019-02'', location = ''Brazil'', park = ''Paris''\<rparr>] = Inr summ \<and>
      (\<forall>(p, e) \<in> set summ.
         positive e \<le> reviews e \<and> 0 \<le> avg e \<and> avg e \<le> 5 \<and> countries e \<le> reviews e) \<and>
      (\<forall>p. filter (\<lambda>r. park r = p)
      [\<lparr>id_review = 1, rating = 5, year_month = ''2019-01'', location = ''Brazil'', park = ''Paris''\<rparr>,
      \<lparr>id_review = 2, rating = 2, year_month = ''2019-02'', location = ''Brazil'', park = ''Paris''\<rparr>] = [] \<longrightarrow> p \<notin> fst ` set summ)"
  by (rule park_summary_bounds) simp



text \<open>
  What \<open>avg_monthly_rating\<close> does where the unpacking succeeds. For every park string
  and every record sequence in which the period of each record of that park (compared
  without regard to case) contains exactly one \<open>-\<close>, it returns exactly 12 entries, keyed
  \<open>Jan\<close> to \<open>Dec\<close> in calendar order whichever months have data; a month with no matching
  record has the value 0 and a month with matching records has the mean of their ratings.
  A record matches the month whose two-character code is the part of its period after
  the \<open>-\<close>; a record with an unknown code matches no month.
\<close>

lemma avg_monthly_rating_twelve:
  assumes "\<forall>r \<in> set revs. lower (park r) = lower p \<longrightarrow> count_list (year_month r) CHR ''-'' = 1"
  shows "\<exists>out. avg_monthly_rating revs p = Inr out \<and> length out = 12 \<and>
           map fst out = [''Jan'', ''Feb'', ''Mar'', ''Apr'', ''May'', ''Jun'',
                          ''Jul'', ''Aug'', ''Sep'', ''Oct'', ''Nov'', ''Dec''] \<and>
           (\<forall>(c, n) \<in> set month_map.
              map_of out n =
                Some (let g = filter (\<lambda>r. lower (park r) = lower p \<and> month_code r = Some c) revs
                      in if g = [] then 0 else mean (map rating g)))"
proof -
  let ?stats = "map (\<lambda>k. (k, map rating (filter (\<lambda>r. the (month_name r) = k)
                                               (filter (month_selected p) revs))))
                     (first_seen (map (\<lambda>r. the (month_name r)) (filter (month_selected p) revs)))"
  let ?out = "map (\<lambda>n. (n, month_value ?stats n)) (map snd month_map)"
  have "\<forall>r \<in> set revs. lower (park r) = lower p \<longrightarrow> month_code r \<noteq> None"
    using assms by (simp only: month_code_defined) 
  then have out: "avg_monthly_rating revs p = Inr ?out"
    by (rule avg_monthly_rating_eq)
  have keys: "map fst ?out = map snd month_map"
    by (simp add: comp_def)
  have names: "map snd month_map = [''Jan'', ''Feb'', ''Mar'', ''Apr'', ''May'', ''Jun'',
                          ''Jul'', ''Aug'', ''Sep'', ''Oct'', ''Nov'', ''Dec'']"
    by (simp add: month_map_def)
  have len: "length ?out = 12"
    by (simp add: month_map_def)
  have "map_of ?out n =
          Some (let g = filter (\<lambda>r. lower (park r) = lower p \<and> month_code r = Some c) revs
                in if g = [] then 0 else mean (map rating g))"
    if "(c, n) \<in> set month_map" for c n
  proof -
    from that have "n \<in> set (map snd month_map)" by force
    then have "map_of ?out n = Some (month_value ?stats n)"
      by (simp only: map_of_tabulate if_True)
    then show ?thesis by (simp only: month_value_group [OF that])
  qed
  then have vals: "\<forall>(c, n) \<in> set month_map. map_of ?out n =
          Some (let g = filter (\<lambda>r. lower (park r) = lower p \<and> month_code r = Some c) revs
                in if g = [] then 0 else mean (map rating g))"
    by blast
  show ?thesis
  proof (intro exI conjI)
    show "avg_monthly_rating revs p = Inr ?out" by (rule out)
    show "length ?out = 12" by (rule len)
    show "map fst ?out = [''Jan'', ''Feb'', ''Mar'', ''Apr'', ''May'', ''Jun'',
                          ''Jul'', ''Aug'', ''Sep'', ''Oct'', ''Nov'', ''Dec'']"
      using keys names by (rule trans)
    show "\<forall>(c, n) \<in> set month_map. map_of ?out n =
          Some (let g = filter (\<lambda>r. lower (park r) = lower p \<and> month_code r = Some c) revs
                in if g = [] then 0 else mean (map rating g))"
      by (rule vals)
  qed
qed

lemma avg_monthly_rating_twelve_example:
  "\<exists>out. avg_monthly_rating
       [\<lparr>id_review = 1, rating = 5, year_month = ''2019-02'', location = ''Brazil'', park = ''Paris''\<rparr>,
        \<lparr>id_review = 2, rating = 2, year_month = ''2019-13'', location = ''USA'', park = ''Paris''\<rparr>,
        \<lparr>id_review = 3, rating = 1, year_month = ''missing'', location = ''USA'', park = ''Orlando''\<rparr>]
       ''Paris'' = Inr out \<and> length out = 12 \<and>
           map fst out = [''Jan'', ''Feb'', ''Mar'', ''Apr'', ''May'', ''Jun'',
                          ''Jul'', ''Aug'', ''Sep'', ''Oct'', ''Nov'', ''Dec''] \<and>
           (\<forall>(c, n) \<in> set month_map.
              map_of out n =
                Some (let g = filter (\<lambda>r. lower (park r) = lower ''Paris'' \<and> month_code r = Some c)
       [\<lparr>id_review = 1, rating = 5, year_month = ''2019-02'', location = ''Brazil'', park = ''Paris''\<rparr>,
        \<lparr>id_review = 2, rating = 2, year_month = ''2019-13'', location = ''USA'', park = ''Paris''\<rparr>,
        \<lparr>id_review = 3, rating = 1, year_month = ''missing'', location = ''USA'', park = ''Orlando''\<rparr>]
                      in if g = [] then 0 else mean (map rating g)))"
proof (rule avg_monthly_rating_twelve)
  have "lower ''Orlando'' \<noteq> lower ''Paris''" by code_simp
  then show "\<forall>r \<in> set
       [\<lparr>id_review = 1, rating = 5, year_month = ''2019-02'', location = ''Brazil'', park = ''Paris''\<rparr>,
        \<lparr>id_review = 2, rating = 2, year_month = ''2019-13'', location = ''USA'', park = ''Paris''\<rparr>,
        \<lparr>id_review = 3, rating = 1, year_month = ''missing'', location = ''USA'', park = ''Orlando''\<rparr>].
       lower (park r) = lower ''Paris'' \<longrightarrow> count_list (year_month r) CHR ''-'' = 1"
    by simp
qed

text \<open>
  Claim C3. \<open>avg_monthly_rating\<close> is claimed to return, for every record sequence and
  park string, exactly 12 entries keyed \<open>Jan\<close> to \<open>Dec\<close> in calendar order. The code returns
  nothing when a record of the park has a period that does not split at \<open>-\<close> into exactly
  two parts: the unpacking of the split raises \<open>ValueError\<close>. Here the only record has the
  period \<open>2019\<close>, and the result is the exception, not the 12 entries.
\<close>

theorem avg_monthly_rating_no_dash_raises:
  "avg_monthly_rating
     [\<lparr>id_review = 1, rating = 5, year_month = ''2019'', location = ''Brazil'', park = ''Paris''\<rparr>]
     ''Paris'' = Inl ValueError"
  by code_simp

text \<open>
  Claim C4. \<open>avg_monthly_rating\<close> is claimed never to raise on a record whose period is
  malformed, but to leave the record out and return the 12 entries computed from the
  well-formed records. The code raises \<open>ValueError\<close> when the period of a record of the
  park has no \<open>-\<close> or more than one: here the first record is well formed and the second
  has the period \<open>missing\<close>, and the result is the exception, not the 12 entries with
  \<open>Jan\<close> at 5.
\<close>

theorem avg_monthly_rating_malformed_raises:
  "avg_monthly_rating
     [\<lparr>id_review = 1, rating = 5, year_month = ''2019-01'', location = ''Brazil'', park = ''Paris''\<rparr>,
      \<lparr>id_review = 2, rating = 3, year_month = ''missing'', location = ''USA'', park = ''Paris''\<rparr>]
     ''Paris'' = Inl ValueError"
  by code_simp

text \<open>
  Claim C8. The year-average query is claimed to show \<open>No data.\<close> only for the sentinel
  \<open>None\<close>, and to show an average equal to 0.0 as a number. The code tests the truth
  value of the result, which is false for 0.0 as well: a record of rating 0 gives the
  average 0.0 and the message \<open>No data.\<close>.
\<close>

theorem view_year_average_zero_is_no_data:
  "avg_rating_by_park_year
     [\<lparr>id_review = 1, rating = 0, year_month = ''2019-01'', location = ''Brazil'', park = ''Paris''\<rparr>]
     ''Paris'' ''2019'' = Inr (Some 0) \<and>
   view_year_average
     [\<lparr>id_review = 1, rating = 0, year_month = ''2019-01'', location = ''Brazil'', park = ''Paris''\<rparr>]
     ''Paris'' ''2019'' = NoData"
  by code_simp

theorem view_year_average_zero_is_no_data_witness:
  "view_year_average
     [\<lparr>id_review = 1, rating = 0, year_month = ''2019-01'', location = ''Brazil'', park = ''Paris''\<rparr>]
     ''Paris'' ''2019'' \<noteq> Average ''Paris'' ''2019'' 0"
  using view_year_average_zero_is_no_data by simp

text \<open>
  Claim C6, as amended. For every record sequence, park string and \<open>topn\<close>, the output
  of \<open>top_locations_for_park\<close> is sorted by descending average rating of the location,
  each location of the output carrying the mean of its ratings in the park-filtered
  input, and the locations of one and the same average appear in the order in which
  they were first met in the park-filtered input (they are an initial segment of the
  locations of that average in first-met order). For every \<open>topn \<ge> 0\<close> the output has at
  most \<open>topn\<close> entries. \<open>topn\<close> is 10 when it is not supplied.
\<close>

theorem top_locations_sorted_stable:
  fixes revs :: "review list" and p :: string
  defines "M \<equiv> filter (\<lambda>r. lower (park r) = lower p) revs"
  defines "locavg l \<equiv> mean (map rating (filter (\<lambda>r. location r = l) M))"
  shows "\<exists>out. top_locations_for_park revs p topn = Inr out \<and>
           (0 \<le> topn \<longrightarrow> int (length out) \<le> topn) \<and>
           sorted_wrt (\<lambda>x y. snd y \<le> snd x) out \<and>
           (\<forall>(l, a) \<in> set out. l \<in> location ` set M \<and> a = locavg l) \<and>
           (\<forall>a. prefix (filter (\<lambda>e. snd e = a) out)
                  (filter (\<lambda>e. snd e = a)
                     (map (\<lambda>l. (l, locavg l)) (first_seen (map location M))))) \<and>
           top_locations_for_park_default revs p = top_locations_for_park revs p 10"
proof -
  let ?avgs = "map (\<lambda>l. (l, locavg l)) (first_seen (map location M))"
  let ?sorted = "sorted_reverse snd ?avgs"
  let ?out = "slice_to ?sorted topn"
  have out: "top_locations_for_park revs p topn = Inr ?out"
    unfolding locavg_def M_def by (rule top_locations_eq)
  have pre: "prefix ?out ?sorted" by (rule slice_to_prefix)
  have len: "0 \<le> topn \<longrightarrow> int (length ?out) \<le> topn"
    by (simp add: slice_to_length)
  have desc: "sorted_wrt (\<lambda>x y. snd y \<le> snd x) ?out"
    using pre sorted_reverse_descending by (rule prefix_sorted_wrt)
  have "set ?out \<subseteq> set ?sorted" using pre by (rule set_mono_prefix)
  also have "\<dots> = set ?avgs" by (simp add: sorted_reverse_def)
  finally have vals: "\<forall>(l, a) \<in> set ?out. l \<in> location ` set M \<and> a = locavg l"
    by auto
  have stable: "prefix (filter (\<lambda>e. snd e = a) ?out) (filter (\<lambda>e. snd e = a) ?avgs)" for a
    using prefix_filter [OF pre, of "\<lambda>e. snd e = a"] by (simp only: sorted_reverse_stable)
  show ?thesis
  proof (intro exI conjI allI)
    show "top_locations_for_park revs p topn = Inr ?out" by (rule out)
    show "0 \<le> topn \<longrightarrow> int (length ?out) \<le> topn" by (rule len)
    show "sorted_wrt (\<lambda>x y. snd y \<le> snd x) ?out" by (rule desc)
    show "\<forall>(l, a) \<in> set ?out. l \<in> location ` set M \<and> a = locavg l" by (rule vals)
    show "prefix (filter (\<lambda>e. snd e = a) ?out) (filter (\<lambda>e. snd e = a) ?avgs)" for a
      by (rule stable)
    show "top_locations_for_park_default revs p = top_locations_for_park revs p 10"
      by (simp add: top_locations_for_park_default_def)
  qed
qed

theorem top_locations_sorted_stable_witness:
  "\<exists>out. top_locations_for_park
       [\<lparr>id_review = 1, rating = 4, year_month = ''2019-01'', location = ''Brazil'', park = ''Paris''\<rparr>,
        \<lparr>id_review = 2, rating = 5, year_month = ''2019-02'', location = ''USA'', park = ''Paris''\<rparr>,
        \<lparr>id_review = 3, rating = 4, year_month = ''2019-03'', location = ''France'', park = ''Paris''\<rparr>]
       ''Paris'' 2 = Inr out \<and>
     int (length out) \<le> 2 \<and> sorted_wrt (\<lambda>x y. snd y \<le> snd x) out"
proof -
  from top_locations_sorted_stable [where p = "''Paris''" and topn = 2 and revs =
       "[\<lparr>id_review = 1, rating = 4, year_month = ''2019-01'', location = ''Brazil'', park = ''Paris''\<rparr>,
        \<lparr>id_review = 2, rating = 5, year_month = ''2019-02'', location = ''USA'', park = ''Paris''\<rparr>,
        \<lparr>id_review = 3, rating = 4, year_month = ''2019-03'', location = ''France'', park = ''Paris''\<rparr>]"]
  obtain out where "top_locations_for_park
       [\<lparr>id_review = 1, rating = 4, year_month = ''2019-01'', location = ''Brazil'', park = ''Paris''\<rparr>,
        \<lparr>id_review = 2, rating = 5, year_month = ''2019-02'', location = ''USA'', park = ''Paris''\<rparr>,
        \<lparr>id_review = 3, rating = 4, year_month = ''2019-03'', location = ''France'', park = ''Paris''\<rparr>]
       ''Paris'' 2 = Inr out"
    and "(0::int) \<le> 2 \<longrightarrow> int (length out) \<le> 2"
    and "sorted_wrt (\<lambda>x y. snd y \<le> snd x) out"
    by blast
  then show ?thesis by auto
qed

theorem top_locations_negative_counterexample:
  "top_locations_for_park
     [\<lparr>id_review = 1, rating = 5, year_month = ''2019-01'', location = ''Brazil'', park = ''Paris''\<rparr>,
      \<lparr>id_review = 2, rating = 4, year_month = ''2019-02'', location = ''USA'', park = ''Paris''\<rparr>]
     ''Paris'' (- 1) = Inr [(''Brazil'', 5)]"
  by code_simp

lemma top_locations_example:
  "top_locations_for_park
       [\<lparr>id_review = 1, rating = 4, year_month = ''2019-01'', location = ''Brazil'', park = ''Paris''\<rparr>,
        \<lparr>id_review = 2, rating = 5, year_month = ''2019-02'', location = ''USA'', park = ''Paris''\<rparr>,
        \<lparr>id_review = 3, rating = 4, year_month = ''2019-03'', location = ''France'', park = ''Paris''\<rparr>]
       ''Paris'' 3 = Inr [(''USA'', 5), (''Brazil'', 4), (''France'', 4)]"
  by code_simp

text \<open>
  Claim C9. For every summary produced by \<open>park_summary\<close>, the file written by the CSV
  exporter reads back as the header row \<open>Park,reviews,positive,avg,countries\<close> followed
  by one row per park in the order of the summary, and the rows read back give exactly
  the tuples (park, reviews, positive, avg, countries) of the summary, the \<open>avg\<close> field
  being compared in its formatted text.
\<close>

theorem csv_round_trip:
  "\<exists>summ. park_summary revs = Inr summ \<and>
     hd (csv_reader (csv_export fmt summ)) =
       [''Park'', ''reviews'', ''positive'', ''avg'', ''countries''] \<and>
     map read_summary_row (tl (csv_reader (csv_export fmt summ))) =
       map (\<lambda>(p, data). Some (p, reviews data, positive data, fmt (avg data), countries data))
         summ"
proof -
  obtain summ where summ: "park_summary revs = Inr summ"
    using park_summary_eq by blast
  have "map read_summary_row (map (summary_row fmt) summ) =
        map (\<lambda>(p, data). Some (p, reviews data, positive data, fmt (avg data), countries data))
          summ"
    by (induction summ) (auto simp: read_summary_row_ok)
  then show ?thesis using summ by (auto simp: csv_reader_export header_def)
qed

lemma csv_round_trip_example:
  "csv_reader (csv_export (\<lambda>x. ''4.5'')
     [(''Paris, the park'', \<lparr>reviews = 12, positive = 2, avg = 9 / 2, countries = 3\<rparr>)]) =
   [[''Park'', ''reviews'', ''positive'', ''avg'', ''countries''],
    [''Paris, the park'', ''12'', ''2'', ''4.5'', ''3'']]"
  by code_simp

end
